theory Spec2Isabelle
  imports Complex_Main "HOL-Library.Word"
begin

section \<open>Floating-point values\<close>

text \<open>
  The C types \<^verbatim>\<open>float\<close> and \<^verbatim>\<open>double\<close> of \<^verbatim>\<open>wordle.c\<close> are modelled by one type:
  a finite value, the two infinities, or NaN. Comparisons and the treatment of the
  special values follow IEEE 754 and C99 (\<^verbatim>\<open><\<close> is false as soon as one side is
  NaN; \<^verbatim>\<open>fmax\<close> returns the other argument when one is NaN; \<^verbatim>\<open>log10(0)\<close> is minus
  infinity). The state that the program keeps from one cycle to the next is computed
  in single precision, and this is modelled: the constant \<^verbatim>\<open>0.9f\<close> and the product of
  the smoothing expression are rounded to the nearest \<^verbatim>\<open>float\<close>, ties to even. The
  \<^verbatim>\<open>double\<close> arithmetic of the sampling expression, the logarithm with its
  conversion to \<^verbatim>\<open>float\<close>, and the division and product of \<^verbatim>\<open>printWordle\<close> are
  exact on finite values, and the sign of zero is not modelled.
\<close>

datatype fval = Fin real | PInf | NInf | NaN

text \<open>The C operator \<^verbatim>\<open><\<close>.\<close>

fun flt :: "fval \<Rightarrow> fval \<Rightarrow> bool" where
  "flt (Fin x) (Fin y) = (x < y)"
| "flt (Fin x) PInf = True"
| "flt NInf (Fin y) = True"
| "flt NInf PInf = True"
| "flt _ _ = False"

text \<open>The C operator \<^verbatim>\<open><=\<close>.\<close>

fun fle :: "fval \<Rightarrow> fval \<Rightarrow> bool" where
  "fle (Fin x) (Fin y) = (x \<le> y)"
| "fle (Fin x) PInf = True"
| "fle NInf (Fin y) = True"
| "fle NInf PInf = True"
| "fle PInf PInf = True"
| "fle NInf NInf = True"
| "fle _ _ = False"

fun fsgn :: "fval \<Rightarrow> real" where
  "fsgn (Fin x) = sgn x"
| "fsgn PInf = 1"
| "fsgn NInf = - 1"
| "fsgn NaN = 0"

definition inf_of_sign :: "real \<Rightarrow> fval" where
  "inf_of_sign s = (if 0 < s then PInf else if s < 0 then NInf else NaN)"

text \<open>The C operator \<^verbatim>\<open>*\<close>: zero times infinity is NaN.\<close>

fun fmul :: "fval \<Rightarrow> fval \<Rightarrow> fval" where
  "fmul (Fin x) (Fin y) = Fin (x * y)"
| "fmul NaN _ = NaN"
| "fmul _ NaN = NaN"
| "fmul a b = inf_of_sign (fsgn a * fsgn b)"

text \<open>The C operator \<^verbatim>\<open>+\<close>: infinities of opposite sign add up to NaN.\<close>

fun fadd :: "fval \<Rightarrow> fval \<Rightarrow> fval" where
  "fadd (Fin x) (Fin y) = Fin (x + y)"
| "fadd NaN _ = NaN"
| "fadd _ NaN = NaN"
| "fadd PInf NInf = NaN"
| "fadd NInf PInf = NaN"
| "fadd PInf _ = PInf"
| "fadd _ PInf = PInf"
| "fadd NInf _ = NInf"
| "fadd _ NInf = NInf"

text \<open>\<^verbatim>\<open>log10\<close> of \<^verbatim>\<open>math.h\<close>: a pole at zero, a domain error below it.\<close>

fun flog10 :: "fval \<Rightarrow> fval" where
  "flog10 (Fin x) = (if x < 0 then NaN else if x = 0 then NInf else Fin (log 10 x))"
| "flog10 PInf = PInf"
| "flog10 NInf = NaN"
| "flog10 NaN = NaN"

text \<open>\<^verbatim>\<open>fmax\<close> of \<^verbatim>\<open>math.h\<close>: a NaN argument is treated as missing data.\<close>

fun fmax :: "fval \<Rightarrow> fval \<Rightarrow> fval" where
  "fmax NaN y = y"
| "fmax x NaN = x"
| "fmax x y = (if flt x y then y else x)"

subsection \<open>Rounding to single precision\<close>

text \<open>
  Round to nearest, ties to even, on the multiples of one unit in the last place. A
  \<^verbatim>\<open>float\<close> has 24 significant bits; below \<open>2 powi (- 126)\<close> the spacing stays at
  \<open>2 powi (- 149)\<close> (subnormal numbers), and a result of magnitude \<open>2 ^ 128\<close> or more
  is an infinity.
\<close>

definition round_half_even :: "real \<Rightarrow> int" where
  "round_half_even y =
    (let f = \<lfloor>y\<rfloor>; d = y - of_int f in
     if d < 1 / 2 then f else if 1 / 2 < d then f + 1 else if even f then f else f + 1)"

definition float_exponent :: "real \<Rightarrow> int" where
  "float_exponent x = max \<lfloor>log 2 \<bar>x\<bar>\<rfloor> (- 126)"

definition float_ulp :: "real \<Rightarrow> real" where
  "float_ulp x = 2 powi (float_exponent x - 23)"

definition to_float :: "real \<Rightarrow> fval" where
  "to_float x =
    (if x = 0 then Fin 0
     else
       (let r = of_int (round_half_even (x / float_ulp x)) * float_ulp x in
        if 2 ^ 128 \<le> \<bar>r\<bar> then (if 0 < x then PInf else NInf) else Fin r))"

text \<open>The values of type \<^verbatim>\<open>float\<close>: those that rounding leaves as they are.\<close>

fun is_float :: "fval \<Rightarrow> bool" where
  "is_float (Fin x) = (to_float x = Fin x)"
| "is_float _ = True"

text \<open>The C operator \<^verbatim>\<open>*\<close> on two operands of type \<^verbatim>\<open>float\<close>.\<close>

definition fmul_float :: "fval \<Rightarrow> fval \<Rightarrow> fval" where
  "fmul_float a b = (case fmul a b of Fin p \<Rightarrow> to_float p | v \<Rightarrow> v)"

section \<open>Configuration constants\<close>

definition SECONDS :: nat where "SECONDS = 10"
definition SAMPLE_RATE :: nat where "SAMPLE_RATE = 44100"
definition BUFSIZE :: nat where "BUFSIZE = 1024"
definition SMOOTHING :: fval where "SMOOTHING = to_float (9 / 10)"
definition WORDLE_COLUMNS :: nat where "WORDLE_COLUMNS = 5"
definition WORDLE_ROWS :: nat where "WORDLE_ROWS = 6"
definition DFT_SCALING :: real where "DFT_SCALING = 1 / 2"

section \<open>Frequency bins\<close>

text \<open>
  \<^verbatim>\<open>#define DFT_MIDPOINT(X) (((BUFSIZE / 2) / WORDLE_COLUMNS) * (X + 0.5) * DFT_SCALING)\<close>
  The two divisions on the left are integer divisions; the rest is \<^verbatim>\<open>double\<close>
  arithmetic.
\<close>

definition DFT_MIDPOINT :: "nat \<Rightarrow> real" where
  "DFT_MIDPOINT X = real ((BUFSIZE div 2) div WORDLE_COLUMNS) * (real X + 1 / 2) * DFT_SCALING"

text \<open>
  The initialiser of a \<^verbatim>\<open>uint32_t\<close> from a \<^verbatim>\<open>double\<close> discards the fractional part
  (truncation towards zero).
\<close>

definition uint32_of_double :: "real \<Rightarrow> 32 word" where
  "uint32_of_double d = word_of_int (if 0 \<le> d then \<lfloor>d\<rfloor> else \<lceil>d\<rceil>)"

definition aui32FreqBins :: "32 word list" where
  "aui32FreqBins =
    [ uint32_of_double (DFT_MIDPOINT 0),
      uint32_of_double (DFT_MIDPOINT 1),
      uint32_of_double (DFT_MIDPOINT 2),
      uint32_of_double (DFT_MIDPOINT 3),
      uint32_of_double (DFT_MIDPOINT 4) ]"

section \<open>Palette and quantisation\<close>

record WORDLE_FRAME =
  afAmplitudes :: "fval list"

datatype emoji = BlackSquare | YellowSquare | GreenSquare

definition acPalette :: "emoji list" where
  "acPalette = [BlackSquare, YellowSquare, GreenSquare]"

definition afAmplitudeBrackets :: "fval list" where
  "afAmplitudeBrackets = [Fin 0, Fin (1 / 2), Fin 1]"

text \<open>
  \<^verbatim>\<open>#define REMAP(X) ((X < afAmplitudeBrackets[1]) ? 0 : (X < afAmplitudeBrackets[2]) ? 1 : 2)\<close>
\<close>

definition REMAP :: "fval \<Rightarrow> nat" where
  "REMAP X =
    (if flt X (afAmplitudeBrackets ! 1) then 0
     else if flt X (afAmplitudeBrackets ! 2) then 1
     else 2)"

text \<open>Row height attenuation: \<^verbatim>\<open>(float)(1 + ui8Row) / WORDLE_ROWS\<close>.\<close>

definition fAttenuation :: "nat \<Rightarrow> fval" where
  "fAttenuation ui8Row = Fin (real (1 + ui8Row) / real WORDLE_ROWS)"

text \<open>
  The index expression of \<^verbatim>\<open>printWordle\<close> for one cell:
  \<^verbatim>\<open>REMAP((fAttenuation * psWordleFrame->afAmplitudes[ui8Column]))\<close>.
\<close>

definition palette_index :: "nat \<Rightarrow> fval \<Rightarrow> nat" where
  "palette_index ui8Row a = REMAP (fmul (fAttenuation ui8Row) a)"

text \<open>
  \<^verbatim>\<open>printWordle\<close>: the rows of palette entries handed to \<^verbatim>\<open>putwchar\<close>, first row
  first. The layout characters written around them are left out.
\<close>

definition printWordle :: "WORDLE_FRAME \<Rightarrow> emoji list list" where
  "printWordle psWordleFrame =
    map (\<lambda>ui8Row.
      map (\<lambda>ui8Column.
        acPalette ! palette_index ui8Row (afAmplitudes psWordleFrame ! ui8Column))
        [0..<WORDLE_COLUMNS])
      [0..<WORDLE_ROWS]"

section \<open>The transform\<close>

text \<open>
  \<^verbatim>\<open>fftw_complex\<close> is \<^verbatim>\<open>double[2]\<close>: real part first, imaginary part second.
  \<^verbatim>\<open>fftw_execute\<close> on a plan made by \<^verbatim>\<open>fftw_plan_dft_r2c_1d(BUFSIZE, ...)\<close> belongs
  to the FFTW library; it is modelled by the transform that library documents: output
  \<open>k\<close>, for \<open>k\<close> from 0 to \<open>BUFSIZE / 2\<close>, is the sum over \<open>j\<close> of input \<open>j\<close> times
  \<open>exp (- 2 \<pi> i j k / BUFSIZE)\<close>. \<^verbatim>\<open>fftw_alloc_complex\<close> and the planner are taken to
  succeed; the program does not test what they return.
\<close>

type_synonym fftw_complex = "fval \<times> fval"

fun fsum :: "fval list \<Rightarrow> fval" where
  "fsum [] = Fin 0"
| "fsum (x # xs) = fadd x (fsum xs)"

definition dft_angle :: "nat \<Rightarrow> nat \<Rightarrow> real" where
  "dft_angle j k = 2 * pi * real j * real k / real BUFSIZE"

definition dft_bin :: "fval list \<Rightarrow> nat \<Rightarrow> fftw_complex" where
  "dft_bin adFFTWInput k =
    (fsum (map (\<lambda>j. fmul (adFFTWInput ! j) (Fin (cos (dft_angle j k)))) [0..<BUFSIZE]),
     fsum (map (\<lambda>j. fmul (adFFTWInput ! j) (Fin (- sin (dft_angle j k)))) [0..<BUFSIZE]))"

definition fftw_execute :: "fval list \<Rightarrow> fftw_complex list" where
  "fftw_execute adFFTWInput = map (dft_bin adFFTWInput) [0..<BUFSIZE div 2 + 1]"

section \<open>One capture cycle\<close>

text \<open>
  The copy loop \<^verbatim>\<open>adFFTWInput[j] = afPulseBuffer[j]\<close> for \<open>j\<close> below \<^verbatim>\<open>BUFSIZE\<close>.
  A successful \<^verbatim>\<open>pa_simple_read\<close> has filled all \<^verbatim>\<open>BUFSIZE\<close> entries of the buffer.
\<close>

definition copy_buffer :: "fval list \<Rightarrow> fval list" where
  "copy_buffer afPulseBuffer = map (\<lambda>j. afPulseBuffer ! j) [0..<BUFSIZE]"

text \<open>
  The amplitude of one column:
  \<^verbatim>\<open>
  const fftw_complex* sDFTSample = &psFFTWOutput[aui32FreqBins[ui8Column]];
  const float fAmplitude = log10(
      (*sDFTSample[0]) * (*sDFTSample[0]) + (*sDFTSample[1]) * (*sDFTSample[1]));
  \<close>
  \<^verbatim>\<open>sDFTSample\<close> points to an array of two doubles, and the subscript binds tighter
  than the dereference: \<^verbatim>\<open>*sDFTSample[0]\<close> is \<^verbatim>\<open>sDFTSample[0][0]\<close>, the real part of
  the entry at the mapped index, and \<^verbatim>\<open>*sDFTSample[1]\<close> is \<^verbatim>\<open>sDFTSample[1][0]\<close>, the
  real part of the entry after it.
\<close>

definition fAmplitude :: "fftw_complex list \<Rightarrow> nat \<Rightarrow> fval" where
  "fAmplitude psFFTWOutput ui8Column =
    (let sDFTSample = unat (aui32FreqBins ! ui8Column) in
     flog10 (fadd
       (fmul (fst (psFFTWOutput ! (sDFTSample + 0))) (fst (psFFTWOutput ! (sDFTSample + 0))))
       (fmul (fst (psFFTWOutput ! (sDFTSample + 1))) (fst (psFFTWOutput ! (sDFTSample + 1))))))"

text \<open>
  What the specification asks of the Bin Sampler, in its words: the base-10 logarithm
  of real part squared plus imaginary part squared of the entry at the mapped index.
\<close>

definition spec_bin_sample :: "fftw_complex list \<Rightarrow> nat \<Rightarrow> fval" where
  "spec_bin_sample psFFTWOutput ui8Column =
    (let z = psFFTWOutput ! unat (aui32FreqBins ! ui8Column) in
     flog10 (fadd (fmul (fst z) (fst z)) (fmul (snd z) (snd z))))"

text \<open>
  The smoothing expression
  \<^verbatim>\<open>fmax((sWordleFrame.afAmplitudes[ui8Column] * SMOOTHING), fAmplitude)\<close>.
  Both factors are of type \<^verbatim>\<open>float\<close>, so the product is rounded to \<^verbatim>\<open>float\<close>;
  \<^verbatim>\<open>fmax\<close> returns one of its arguments, which the store leaves as it is.
\<close>

definition smooth :: "fval \<Rightarrow> fval \<Rightarrow> fval" where
  "smooth prev new = fmax (fmul_float prev SMOOTHING) new"

text \<open>The loop over the columns that stores the smoothed amplitudes in the frame.\<close>

function smooth_columns :: "fftw_complex list \<Rightarrow> nat \<Rightarrow> WORDLE_FRAME \<Rightarrow> WORDLE_FRAME" where
  "smooth_columns psFFTWOutput ui8Column sWordleFrame =
    (if ui8Column < WORDLE_COLUMNS then
       smooth_columns psFFTWOutput (Suc ui8Column)
         (sWordleFrame\<lparr>afAmplitudes :=
            (afAmplitudes sWordleFrame)
              [ui8Column := smooth (afAmplitudes sWordleFrame ! ui8Column)
                                   (fAmplitude psFFTWOutput ui8Column)]\<rparr>)
     else sWordleFrame)"
  by pat_completeness auto
termination
  by (relation "measure (\<lambda>(out, col, fr). WORDLE_COLUMNS - col)") auto

declare smooth_columns.simps [simp del]

section \<open>The capture loop and the program\<close>

text \<open>
  What the program exchanges with its surroundings. \<^verbatim>\<open>pa_simple_new\<close> either fails
  with an error code or returns a stream; the \<open>i\<close>-th call of \<^verbatim>\<open>pa_simple_read\<close>
  either fails with an error code or fills the buffer. What the program does is a list
  of events, oldest first, and an exit status.
\<close>

datatype open_result = OpenFailed int | OpenOk

datatype read_result = ReadFailed int | ReadOk "fval list"

datatype resource = Stream | FFTWOutput | FFTWPlan

datatype event =
    PrintUsage
  | PrintOpenFailed int
  | Acquire resource
  | PrintReadFailed int
  | ClearTerminal
  | Render "emoji list list"
  | Release resource

record loop_state =
  sWordleFrame :: WORDLE_FRAME
  emitted :: "event list"

function capture_loop ::
  "nat \<Rightarrow> (nat \<Rightarrow> read_result) \<Rightarrow> nat \<Rightarrow> loop_state \<Rightarrow> loop_state" where
  "capture_loop ui32NumReads pa_simple_read ui32ReadIndex s =
    (if ui32ReadIndex < ui32NumReads then
       (case pa_simple_read ui32ReadIndex of
          ReadFailed iErrorCode \<Rightarrow> s\<lparr>emitted := emitted s @ [PrintReadFailed iErrorCode]\<rparr>
        | ReadOk afPulseBuffer \<Rightarrow>
            (let adFFTWInput = copy_buffer afPulseBuffer;
                 psFFTWOutput = fftw_execute adFFTWInput;
                 frame = smooth_columns psFFTWOutput 0 (sWordleFrame s)
             in capture_loop ui32NumReads pa_simple_read (Suc ui32ReadIndex)
                  \<lparr>sWordleFrame = frame,
                   emitted = emitted s @ [ClearTerminal, Render (printWordle frame)]\<rparr>))
     else s)"
  by pat_completeness auto
termination
  by (relation "measure (\<lambda>(n, rd, i, s). n - i)") auto

declare capture_loop.simps [simp del]

definition ui32NumReads :: nat where
  "ui32NumReads = (SAMPLE_RATE * SECONDS) div BUFSIZE"

text \<open>\<^verbatim>\<open>WORDLE_FRAME sWordleFrame = {};\<close>\<close>

definition zero_frame :: WORDLE_FRAME where
  "zero_frame = \<lparr>afAmplitudes = replicate WORDLE_COLUMNS (Fin 0)\<rparr>"

record outcome =
  exit_status :: int
  events :: "event list"

definition main :: "int \<Rightarrow> open_result \<Rightarrow> (nat \<Rightarrow> read_result) \<Rightarrow> outcome" where
  "main argc pa_simple_new pa_simple_read =
    (if argc < 2 then \<lparr>exit_status = 1, events = [PrintUsage]\<rparr>
     else
       (case pa_simple_new of
          OpenFailed iErrorCode \<Rightarrow> \<lparr>exit_status = 1, events = [PrintOpenFailed iErrorCode]\<rparr>
        | OpenOk \<Rightarrow>
            (let s = capture_loop ui32NumReads pa_simple_read 0
                       \<lparr>sWordleFrame = zero_frame,
                        emitted = [Acquire Stream, Acquire FFTWOutput, Acquire FFTWPlan]\<rparr>
             in \<lparr>exit_status = 0,
                 events = emitted s @ [Release Stream, Release FFTWOutput, Release FFTWPlan]\<rparr>)))"

text \<open>Projections of a list of events.\<close>

fun rendered :: "event list \<Rightarrow> emoji list list list" where
  "rendered [] = []"
| "rendered (Render g # es) = g # rendered es"
| "rendered (_ # es) = rendered es"

fun acquired :: "event list \<Rightarrow> resource list" where
  "acquired [] = []"
| "acquired (Acquire r # es) = r # acquired es"
| "acquired (_ # es) = acquired es"

fun released :: "event list \<Rightarrow> resource list" where
  "released [] = []"
| "released (Release r # es) = r # released es"
| "released (_ # es) = released es"

section \<open>Concrete inputs and invariants\<close>

text \<open>A window of silence, and a window holding a single unit impulse at its start.\<close>

definition zero_window :: "fval list" where
  "zero_window = replicate BUFSIZE (Fin 0)"

definition impulse_window :: "fval list" where
  "impulse_window = Fin 1 # replicate (BUFSIZE - 1) (Fin 0)"

text \<open>
  Three audio sources: one that delivers silence on every read, one that delivers
  silence but fails on its third read, and one that fails on every read.
\<close>

definition silence :: "nat \<Rightarrow> read_result" where
  "silence i = ReadOk zero_window"

definition fails_on_third :: "nat \<Rightarrow> read_result" where
  "fails_on_third i = (if i = 2 then ReadFailed 1 else ReadOk zero_window)"

definition always_fails :: "nat \<Rightarrow> read_result" where
  "always_fails i = ReadFailed 1"

text \<open>The grid whose cells all show the first palette entry.\<close>

definition black_grid :: "emoji list list" where
  "black_grid = replicate WORDLE_ROWS (replicate WORDLE_COLUMNS (acPalette ! 0))"

text \<open>
  The frame holds one amplitude per column, and none of them is negative, minus
  infinity or NaN.
\<close>

definition frame_ok :: "WORDLE_FRAME \<Rightarrow> bool" where
  "frame_ok fr \<longleftrightarrow> length (afAmplitudes fr) = WORDLE_COLUMNS \<and>
     (\<forall>col < WORDLE_COLUMNS. fle (Fin 0) (afAmplitudes fr ! col))"

section \<open>Rounding\<close>

lemma round_half_even_le: "y \<le> of_int k \<Longrightarrow> round_half_even y \<le> k"
proof -
  assume le: "y \<le> of_int k"
  then have fl: "\<lfloor>y\<rfloor> \<le> k"
    by (simp add: floor_le_iff)
  show ?thesis
  proof (cases "\<lfloor>y\<rfloor> = k")
    case True
    then have "y = of_int k"
      using le of_int_floor_le [of y] by simp
    then show ?thesis
      by (simp add: round_half_even_def)
  next
    case False
    with fl have "\<lfloor>y\<rfloor> + 1 \<le> k" by simp
    then show ?thesis
      by (simp add: round_half_even_def Let_def)
  qed
qed

lemma round_half_even_ge: "of_int k \<le> y \<Longrightarrow> k \<le> round_half_even y"
proof -
  assume "of_int k \<le> y"
  then have "k \<le> \<lfloor>y\<rfloor>" by (simp add: le_floor_iff)
  then show ?thesis
    by (simp add: round_half_even_def Let_def)
qed

lemma round_half_even_error: "\<bar>of_int (round_half_even y) - y\<bar> \<le> 1 / 2"
proof -
  have "of_int \<lfloor>y\<rfloor> \<le> y" "y < of_int \<lfloor>y\<rfloor> + 1"
    by linarith+
  then show ?thesis
    by (auto simp add: round_half_even_def Let_def abs_le_iff)
qed

lemma float_ulp_pos: "0 < float_ulp x"
  by (simp add: float_ulp_def)

lemma to_float_not_NaN: "to_float x \<noteq> NaN"
  by (simp add: to_float_def Let_def)

lemma to_float_nonneg: "0 \<le> x \<Longrightarrow> fle (Fin 0) (to_float x)"
proof -
  assume x: "0 \<le> x"
  then have "0 \<le> x / float_ulp x"
    using float_ulp_pos [of x] by simp
  then have "0 \<le> round_half_even (x / float_ulp x)"
    by (intro round_half_even_ge) simp
  then have "0 \<le> real_of_int (round_half_even (x / float_ulp x)) * float_ulp x"
    using float_ulp_pos [of x] by simp
  with x show ?thesis
    by (simp add: to_float_def Let_def)
qed

lemma to_float_nonpos: "x \<le> 0 \<Longrightarrow> fle (to_float x) (Fin 0)"
proof -
  assume x: "x \<le> 0"
  then have "x / float_ulp x \<le> 0"
    using float_ulp_pos [of x] by (simp add: divide_nonpos_pos)
  then have "round_half_even (x / float_ulp x) \<le> 0"
    by (intro round_half_even_le) simp
  then have "real_of_int (round_half_even (x / float_ulp x)) * float_ulp x \<le> 0"
    using float_ulp_pos [of x] by (simp add: mult_le_0_iff)
  with x show ?thesis
    by (simp add: to_float_def Let_def)
qed


lemma floor_log2:
  assumes "2 powi e \<le> x" "x < 2 powi (e + 1)"
  shows "\<lfloor>log 2 x\<rfloor> = e"
proof -
  have pos: "0 < x"
    using assms(1) zero_less_power_int [of "2::real" e] by linarith
  have up: "(2::real) powr (real_of_int e + 1) = 2 powi (e + 1)"
    using powr_real_of_int' [of "2::real" "e + 1"] by simp
  have "real_of_int e \<le> log 2 x"
    using assms(1) pos by (simp add: le_log_iff powr_real_of_int')
  moreover have "log 2 x < real_of_int e + 1"
    using assms(2) pos by (simp add: log_less_iff up)
  ultimately show ?thesis
    by (intro floor_unique) auto
qed

lemma float_exponent_eq:
  "2 powi e \<le> \<bar>x\<bar> \<Longrightarrow> \<bar>x\<bar> < 2 powi (e + 1) \<Longrightarrow> - 126 \<le> e \<Longrightarrow> float_exponent x = e"
  by (simp add: float_exponent_def floor_log2)

lemma float_exponent_mono:
  "0 < z \<Longrightarrow> z \<le> y \<Longrightarrow> float_exponent z \<le> float_exponent y"
proof -
  assume "0 < z" "z \<le> y"
  then have "log 2 \<bar>z\<bar> \<le> log 2 \<bar>y\<bar>"
    by (simp add: log_mono)
  then have "\<lfloor>log 2 \<bar>z\<bar>\<rfloor> \<le> \<lfloor>log 2 \<bar>y\<bar>\<rfloor>"
    by (rule floor_mono)
  then show ?thesis
    by (simp add: float_exponent_def)
qed

lemma float_exponent_normal:
  assumes "2 powi (- 126) \<le> z"
  shows "float_exponent z = \<lfloor>log 2 z\<rfloor> \<and> 2 powi \<lfloor>log 2 z\<rfloor> \<le> z"
proof -
  have pos: "0 < z"
    using assms zero_less_power_int [of "2::real" "- 126"] by linarith
  have "(2::real) powr real_of_int (- 126) \<le> z"
    using assms powr_real_of_int' [of "2::real" "- 126"] by simp
  then have "real_of_int (- 126) \<le> log 2 z"
    using pos by (simp add: le_log_iff)
  then have "- 126 \<le> \<lfloor>log 2 z\<rfloor>"
    by (simp add: le_floor_iff)
  moreover have "(2::real) powr real_of_int \<lfloor>log 2 z\<rfloor> \<le> z"
    using pos by (simp add: powr_le_iff)
  then have "2 powi \<lfloor>log 2 z\<rfloor> \<le> z"
    by (simp add: powr_real_of_int')
  ultimately show ?thesis
    using pos by (simp add: float_exponent_def)
qed

text \<open>Rounding never crosses a float.\<close>

lemma to_float_le_float:
  assumes fl: "to_float y = Fin y" and z: "z \<le> y" and y: "0 \<le> y"
  shows "fle (to_float z) (Fin y)"
proof (cases "0 < z")
  case False
  then have "fle (to_float z) (Fin 0)"
    by (intro to_float_nonpos) simp
  with y show ?thesis
    by (cases "to_float z") simp_all
next
  case True
  with z have ypos: "0 < y" by simp
  let ?uz = "float_ulp z" and ?uy = "float_ulp y"
  let ?K = "round_half_even (y / ?uy)"
  let ?n = "nat (float_exponent y - float_exponent z)"
  from fl ypos have yK: "y = of_int ?K * ?uy" and ymax: "\<bar>y\<bar> < 2 ^ 128"
    by (auto simp add: to_float_def Let_def split: if_splits)
  have exp: "float_exponent z \<le> float_exponent y"
    using True z by (rule float_exponent_mono)
  have "?uy / ?uz = 2 powi (float_exponent y - float_exponent z)"
    by (simp add: float_ulp_def power_int_diff [symmetric])
  also have "\<dots> = 2 powi int ?n"
    using exp by simp
  also have "\<dots> = 2 ^ ?n"
    by (rule power_int_of_nat)
  finally have ratio: "?uy = 2 ^ ?n * ?uz"
    using float_ulp_pos [of z] by (simp add: field_simps)
  have "y = of_int (?K * 2 ^ ?n) * ?uz"
    using yK ratio by simp
  then have "z / ?uz \<le> of_int (?K * 2 ^ ?n)"
    using z float_ulp_pos [of z] by (simp add: field_simps)
  then have "round_half_even (z / ?uz) \<le> ?K * 2 ^ ?n"
    by (rule round_half_even_le)
  then have "real_of_int (round_half_even (z / ?uz)) \<le> real_of_int (?K * 2 ^ ?n)"
    by linarith
  then have "of_int (round_half_even (z / ?uz)) * ?uz \<le> of_int (?K * 2 ^ ?n) * ?uz"
    using float_ulp_pos [of z] by (simp only: mult_le_cancel_right_pos)
  then have up: "of_int (round_half_even (z / ?uz)) * ?uz \<le> y"
    using \<open>y = of_int (?K * 2 ^ ?n) * ?uz\<close> by simp
  have "0 \<le> round_half_even (z / ?uz)"
    using True float_ulp_pos [of z] by (intro round_half_even_ge) simp
  then have low: "0 \<le> of_int (round_half_even (z / ?uz)) * ?uz"
    using float_ulp_pos [of z] by simp
  from up low ymax True show ?thesis
    by (simp add: to_float_def Let_def)
qed

text \<open>In the normal range rounding moves a value by at most one part in \<open>2\<^sup>2\<^sup>4\<close>.\<close>

lemma to_float_normal:
  assumes lo: "2 powi (- 126) \<le> z" and hi: "z * (1 + 2 powi (- 24)) < 2 ^ 128"
  shows "\<exists>r. to_float z = Fin r \<and> 0 \<le> r \<and> r \<le> z * (1 + 2 powi (- 24))"
proof -
  let ?e = "\<lfloor>log 2 z\<rfloor>"
  let ?u = "float_ulp z"
  let ?r = "of_int (round_half_even (z / ?u)) * ?u"
  have pos: "0 < z"
    using lo zero_less_power_int [of "2::real" "- 126"] by linarith
  have e: "float_exponent z = ?e" and pe: "2 powi ?e \<le> z"
    using float_exponent_normal [OF lo] by simp_all
  have u: "?u = 2 powi ?e * 2 powi (- 23)"
    by (simp add: float_ulp_def e power_int_diff power_int_minus field_simps)
  have "\<bar>of_int (round_half_even (z / ?u)) - z / ?u\<bar> \<le> 1 / 2"
    by (rule round_half_even_error)
  then have "of_int (round_half_even (z / ?u)) \<le> z / ?u + 1 / 2"
    by linarith
  then have "?r \<le> (z / ?u + 1 / 2) * ?u"
    using float_ulp_pos [of z] by (simp only: mult_le_cancel_right_pos)
  also have "\<dots> = z + ?u / 2"
    using float_ulp_pos [of z] by (simp add: field_simps)
  also have "?u / 2 = 2 powi ?e * 2 powi (- 24)"
    by (simp add: u power_int_minus)
  also have "z + 2 powi ?e * 2 powi (- 24) \<le> z + z * 2 powi (- 24)"
    using pe by (simp add: mult_right_mono)
  finally have up: "?r \<le> z * (1 + 2 powi (- 24))"
    by (simp add: algebra_simps)
  have "0 \<le> round_half_even (z / ?u)"
    using pos float_ulp_pos [of z] by (intro round_half_even_ge) simp
  then have low: "0 \<le> ?r"
    using float_ulp_pos [of z] by simp
  from up low hi pos show ?thesis
    by (simp add: to_float_def Let_def)
qed

lemma float_exponent_subnormal:
  assumes "x \<noteq> 0" "\<bar>x\<bar> < 2 powi (- 126)"
  shows "float_exponent x = - 126"
proof -
  have pos: "0 < \<bar>x\<bar>"
    using assms(1) by simp
  have "\<bar>x\<bar> < 2 powr real_of_int (- 126)"
    using assms(2) powr_real_of_int' [of "2::real" "- 126"] by simp
  then have "log 2 \<bar>x\<bar> < real_of_int (- 126)"
    using pos by (simp only: log_less_iff [OF _ pos] one_less_numeral_iff semiring_norm)
  then have "\<lfloor>log 2 \<bar>x\<bar>\<rfloor> < - 126"
    by (simp add: floor_less_iff)
  then show ?thesis
    by (simp add: float_exponent_def)
qed

lemma is_float_bound: "to_float y = Fin y \<Longrightarrow> \<bar>y\<bar> < 2 ^ 128"
  by (cases "y = 0") (auto simp add: to_float_def Let_def split: if_splits)

lemma SMOOTHING_value: "SMOOTHING = Fin (7549747 / 8388608)"
proof -
  have "float_exponent (9 / 10) = - 1"
    by (rule float_exponent_eq) (simp_all add: power_int_minus)
  then show ?thesis
    by (simp add: SMOOTHING_def to_float_def float_ulp_def round_half_even_def Let_def
        power_int_minus)
qed

lemma to_float_3: "to_float 3 = Fin 3"
proof -
  have "float_exponent 3 = 1"
    by (rule float_exponent_eq) (simp_all add: power_int_minus)
  then show ?thesis
    by (simp add: to_float_def float_ulp_def round_half_even_def Let_def power_int_minus)
qed

lemma to_float_minus_1: "to_float (- 1) = Fin (- 1)"
proof -
  have "float_exponent (- 1) = 0"
    by (rule float_exponent_eq) (simp_all add: power_int_minus)
  then show ?thesis
    by (simp add: to_float_def float_ulp_def round_half_even_def Let_def power_int_minus)
qed


lemma to_float_4_decayed: "to_float (7549747 / 2097152) = Fin (7549747 / 2097152)"
proof -
  have "float_exponent (7549747 / 2097152) = 1"
    by (rule float_exponent_eq) (simp_all add: power_int_minus)
  then show ?thesis
    by (simp add: to_float_def float_ulp_def round_half_even_def Let_def power_int_minus)
qed


lemma smooth_Fin: "smooth (Fin x) s = fmax (to_float (x * (7549747 / 8388608))) s"
  by (simp add: smooth_def fmul_float_def SMOOTHING_value)

lemma smooth_zero: "smooth (Fin 0) s = fmax (Fin 0) s"
  by (simp add: smooth_Fin to_float_def)

lemma smooth_PInf: "smooth PInf s = fmax PInf s"
  by (simp add: smooth_def fmul_float_def SMOOTHING_value inf_of_sign_def)

lemma smooth_NInf: "smooth NInf s = fmax NInf s"
  by (simp add: smooth_def fmul_float_def SMOOTHING_value inf_of_sign_def)

lemma fmax_nonneg: "fle (Fin 0) a \<Longrightarrow> fle (Fin 0) (fmax a s)"
  by (cases a; cases s) auto

lemma fmax_absorb: "fle a m \<Longrightarrow> fmax a m = m"
  by (cases a; cases m) auto

section \<open>The lookup tables\<close>

lemma aui32FreqBins_values: "aui32FreqBins = [25, 76, 127, 178, 229]"
  by (simp add: aui32FreqBins_def uint32_of_double_def DFT_MIDPOINT_def BUFSIZE_def
      WORDLE_COLUMNS_def DFT_SCALING_def)

lemma columns_cases:
  "col < WORDLE_COLUMNS \<Longrightarrow> col = 0 \<or> col = 1 \<or> col = 2 \<or> col = 3 \<or> col = 4"
  unfolding WORDLE_COLUMNS_def by arith

lemma bins_readable:
  "col < WORDLE_COLUMNS \<Longrightarrow>
     unat (aui32FreqBins ! col) + 0 \<le> BUFSIZE div 2 \<and>
     unat (aui32FreqBins ! col) + 1 \<le> BUFSIZE div 2"
  using columns_cases [of col] by (auto simp add: aui32FreqBins_values BUFSIZE_def)

text \<open>
  Claim C6. Every entry of the frequency bin map is below half the window size
  (\<open>BUFSIZE div 2 = 512\<close>), for each of the five columns; so is the entry that follows
  it, which the sampling expression reads as well. Being unsigned, no entry is negative.
\<close>

theorem freq_bins_in_range:
  "col < WORDLE_COLUMNS \<Longrightarrow>
     unat (aui32FreqBins ! col) < BUFSIZE div 2 \<and>
     unat (aui32FreqBins ! col) + 1 < BUFSIZE div 2"
  using columns_cases [of col] by (auto simp add: aui32FreqBins_values BUFSIZE_def)

theorem freq_bins_in_range_witness:
  "(4::nat) < WORDLE_COLUMNS \<and> length aui32FreqBins = WORDLE_COLUMNS \<and>
   unat (aui32FreqBins ! 4) = 229 \<and> unat (aui32FreqBins ! 4) < BUFSIZE div 2"
  using freq_bins_in_range [of 4] by (simp add: WORDLE_COLUMNS_def aui32FreqBins_values)

section \<open>Quantisation\<close>

lemma REMAP_Fin: "REMAP (Fin x) = (if x < 1 / 2 then 0 else if x < 1 then 1 else 2)"
  by (simp add: REMAP_def afAmplitudeBrackets_def)

lemma REMAP_mono: "x \<le> y \<Longrightarrow> REMAP (Fin x) \<le> REMAP (Fin y)"
  by (simp add: REMAP_Fin)

text \<open>
  Claim C10. \<^verbatim>\<open>REMAP\<close> yields 0, 1 or 2 for every floating-point value, NaN and the
  infinities included: NaN and plus infinity give 2, minus infinity gives 0. The
  palette has three entries, so the lookup of \<^verbatim>\<open>printWordle\<close> stays within it.
\<close>

theorem REMAP_total_in_palette:
  "REMAP X \<in> {0, 1, 2} \<and> REMAP X < length acPalette \<and>
   palette_index r a < length acPalette \<and>
   REMAP NaN = 2 \<and> REMAP PInf = 2 \<and> REMAP NInf = 0"
  by (simp add: REMAP_def palette_index_def acPalette_def afAmplitudeBrackets_def)

text \<open>
  Claim C8. For a column amplitude that is not negative, the palette index of a row is
  monotone in the row: a row further down never gets a lower index than a row above it.
\<close>

theorem row_attenuation_monotone:
  "fle (Fin 0) a \<Longrightarrow> r \<le> r' \<Longrightarrow> palette_index r a \<le> palette_index r' a"
proof (cases a)
  case (Fin x)
  assume "fle (Fin 0) a" and le: "r \<le> r'"
  with Fin have x: "0 \<le> x" by simp
  from le have "real (1 + r) / real WORDLE_ROWS * x \<le> real (1 + r') / real WORDLE_ROWS * x"
    using x by (intro mult_right_mono divide_right_mono) (simp_all add: WORDLE_ROWS_def)
  then show ?thesis
    using Fin
    by (simp add: palette_index_def fAttenuation_def REMAP_mono del: of_nat_add of_nat_Suc)
next
  case PInf
  then show ?thesis
    by (simp add: palette_index_def fAttenuation_def inf_of_sign_def WORDLE_ROWS_def)
next
  case NInf
  assume "fle (Fin 0) a"
  with NInf show ?thesis by simp
next
  case NaN
  assume "fle (Fin 0) a"
  with NaN show ?thesis by simp
qed

theorem row_attenuation_monotone_witness:
  "fle (Fin 0) (Fin 2) \<and> (1::nat) \<le> 4 \<and>
   palette_index 1 (Fin 2) = 1 \<and> palette_index 4 (Fin 2) = 2 \<and>
   palette_index 1 (Fin 2) \<le> palette_index 4 (Fin 2)"
  using row_attenuation_monotone [of "Fin 2" 1 4]
  by (simp add: palette_index_def fAttenuation_def WORDLE_ROWS_def REMAP_Fin)

section \<open>Smoothing\<close>

lemma smooth_columns_from:
  "c \<le> WORDLE_COLUMNS \<Longrightarrow> length (afAmplitudes fr) = WORDLE_COLUMNS \<Longrightarrow>
   afAmplitudes (smooth_columns out c fr) =
     take c (afAmplitudes fr) @
     map (\<lambda>col. smooth (afAmplitudes fr ! col) (fAmplitude out col)) [c..<WORDLE_COLUMNS]"
proof (induction out c fr rule: smooth_columns.induct)
  case (1 out c fr)
  show ?case
  proof (cases "c < WORDLE_COLUMNS")
    case False
    then have "smooth_columns out c fr = fr"
      by (subst smooth_columns.simps) simp
    with False "1.prems" show ?thesis
      by simp
  next
    case True
    let ?v = "smooth (afAmplitudes fr ! c) (fAmplitude out c)"
    let ?fr = "fr\<lparr>afAmplitudes := (afAmplitudes fr)[c := ?v]\<rparr>"
    have len: "length (afAmplitudes ?fr) = WORDLE_COLUMNS"
      using "1.prems" by simp
    have ih: "afAmplitudes (smooth_columns out (Suc c) ?fr) =
        take (Suc c) (afAmplitudes ?fr) @
        map (\<lambda>col. smooth (afAmplitudes ?fr ! col) (fAmplitude out col))
          [Suc c..<WORDLE_COLUMNS]"
      using "1.IH" [OF True _ len] True by simp
    have tk: "take (Suc c) (afAmplitudes ?fr) = take c (afAmplitudes fr) @ [?v]"
      using True "1.prems" by (simp add: take_Suc_conv_app_nth)
    have mp: "map (\<lambda>col. smooth (afAmplitudes ?fr ! col) (fAmplitude out col))
          [Suc c..<WORDLE_COLUMNS]
        = map (\<lambda>col. smooth (afAmplitudes fr ! col) (fAmplitude out col))
          [Suc c..<WORDLE_COLUMNS]"
      by (rule map_cong) auto
    have "smooth_columns out c fr = smooth_columns out (Suc c) ?fr"
      using True by (simp add: smooth_columns.simps [of out c fr])
    then show ?thesis
      using ih tk mp True by (simp add: upt_conv_Cons)
  qed
qed

lemma smooth_nonneg: "fle (Fin 0) f \<Longrightarrow> fle (Fin 0) (smooth f s)"
proof (cases f)
  case (Fin x)
  assume "fle (Fin 0) f"
  with Fin have "0 \<le> x * (7549747 / 8388608)" by simp
  then have "fle (Fin 0) (to_float (x * (7549747 / 8388608)))"
    by (rule to_float_nonneg)
  then show ?thesis
    using Fin by (simp add: smooth_Fin fmax_nonneg)
next
  case PInf
  then show ?thesis by (simp add: smooth_PInf fmax_nonneg)
next
  case NInf
  assume "fle (Fin 0) f"
  with NInf show ?thesis by simp
next
  case NaN
  assume "fle (Fin 0) f"
  with NaN show ?thesis by simp
qed

lemma decayed_le:
  "is_float m \<Longrightarrow> fle (Fin 0) m \<Longrightarrow> fle f m \<Longrightarrow> fle (fmul_float f SMOOTHING) m"
proof (cases f)
  case (Fin x)
  assume fl: "is_float m" and m0: "fle (Fin 0) m" and le: "fle f m"
  show ?thesis
  proof (cases m)
    case (Fin y)
    with m0 le \<open>f = Fin x\<close> have y: "0 \<le> y" and xy: "x \<le> y" by simp_all
    have "x * (7549747 / 8388608) \<le> y"
    proof (cases "0 \<le> x")
      case True
      then have "x * (7549747 / 8388608) \<le> x * 1"
        by (intro mult_left_mono) simp_all
      with xy show ?thesis by simp
    next
      case False
      then have "x * (7549747 / 8388608) \<le> 0"
        by (simp add: mult_le_0_iff)
      with y show ?thesis by simp
    qed
    moreover from fl Fin have "to_float y = Fin y" by simp
    ultimately have "fle (to_float (x * (7549747 / 8388608))) (Fin y)"
      using y by (intro to_float_le_float)
    then show ?thesis
      using Fin \<open>f = Fin x\<close> by (simp add: fmul_float_def SMOOTHING_value)
  next
    case PInf
    then show ?thesis
      using \<open>f = Fin x\<close> to_float_not_NaN [of "x * (7549747 / 8388608)"]
      by (cases "to_float (x * (7549747 / 8388608))")
        (simp_all add: fmul_float_def SMOOTHING_value)
  next
    case NInf
    with m0 show ?thesis by simp
  next
    case NaN
    with m0 show ?thesis by simp
  qed
next
  case PInf
  assume "fle f m"
  with PInf show ?thesis
    by (cases m) (simp_all add: fmul_float_def SMOOTHING_value inf_of_sign_def)
next
  case NInf
  assume "fle (Fin 0) m"
  with NInf show ?thesis
    by (cases m) (simp_all add: fmul_float_def SMOOTHING_value inf_of_sign_def)
next
  case NaN
  assume "fle f m"
  with NaN show ?thesis by simp
qed

lemma smooth_reaches: "is_float m \<Longrightarrow> fle (Fin 0) m \<Longrightarrow> fle f m \<Longrightarrow> smooth f m = m"
  unfolding smooth_def by (intro fmax_absorb decayed_le)

lemma fle_refl: "fle (Fin 0) m \<Longrightarrow> fle m m"
  by (cases m) simp_all

lemma funpow_fixed: "F m = m \<Longrightarrow> (F ^^ k) m = m"
  by (induction k) simp_all

lemma smooth_reaches_and_stays:
  assumes "is_float m" "fle (Fin 0) m" "fle f m"
  shows "((\<lambda>s. smooth s m) ^^ Suc k) f = m"
proof -
  have "smooth m m = m"
    using assms(1,2) by (intro smooth_reaches fle_refl)
  then have "((\<lambda>s. smooth s m) ^^ k) m = m"
    by (rule funpow_fixed)
  moreover have "smooth f m = m"
    using assms by (rule smooth_reaches)
  ultimately show ?thesis
    by (simp only: funpow_Suc_right comp_apply)
qed

text \<open>
  One cycle above a magnitude in the normal range: the state stays at or above the
  magnitude, and either reaches it or shrinks by the factor \<open>q\<close>, the decay constant
  enlarged by the largest relative rounding error.
\<close>

lemma smooth_shrinks:
  fixes x y :: real
  defines "q \<equiv> 7549747 / 8388608 * (1 + 2 powi (- 24))"
  assumes fl: "to_float y = Fin y" and lo: "2 powi (- 126) \<le> y" and hi: "x < 2 ^ 128"
  shows "\<exists>x'. smooth (Fin x) (Fin y) = Fin x' \<and> y \<le> x' \<and> x' \<le> max y (q * x) \<and> x' < 2 ^ 128"
proof (cases "x * (7549747 / 8388608) \<le> y")
  case True
  have y0: "0 \<le> y"
    using lo zero_less_power_int [of "2::real" "- 126"] by linarith
  have "fle (to_float (x * (7549747 / 8388608))) (Fin y)"
    using fl True y0 by (rule to_float_le_float)
  then have "smooth (Fin x) (Fin y) = Fin y"
    by (simp add: smooth_Fin fmax_absorb)
  moreover have "y < 2 ^ 128"
    using is_float_bound [OF fl] by simp
  ultimately show ?thesis
    by simp
next
  case False
  let ?z = "x * (7549747 / 8388608)"
  from False lo have z: "2 powi (- 126) \<le> ?z" by simp
  have x0: "0 < x"
    using z zero_less_power_int [of "2::real" "- 126"] by (simp add: zero_less_mult_iff)
  have zq: "?z * (1 + 2 powi (- 24)) = q * x"
    by (simp add: q_def)
  have "q < 1"
    by (simp add: q_def power_int_minus)
  then have "q * x < x"
    using x0 by simp
  then have "?z * (1 + 2 powi (- 24)) < 2 ^ 128"
    using hi zq by simp
  then have "\<exists>r. to_float ?z = Fin r \<and> 0 \<le> r \<and> r \<le> ?z * (1 + 2 powi (- 24))"
    by (rule to_float_normal [OF z])
  then obtain r where r: "to_float ?z = Fin r" "0 \<le> r" "r \<le> q * x"
    unfolding zq by blast
  have "smooth (Fin x) (Fin y) = fmax (Fin r) (Fin y)"
    by (simp only: smooth_Fin r(1))
  then have "smooth (Fin x) (Fin y) = Fin (max r y)"
    by (simp add: max_def)
  moreover have "max r y < 2 ^ 128"
    using r(3) \<open>q * x < x\<close> hi is_float_bound [OF fl] by simp
  moreover have "max r y \<le> max y (q * x)"
    using r(3) by simp
  ultimately show ?thesis
    by simp
qed

lemma smooth_converges_within:
  fixes x y :: real
  defines "q \<equiv> 7549747 / 8388608 * (1 + 2 powi (- 24))"
  assumes fl: "to_float y = Fin y" and lo: "2 powi (- 126) \<le> y"
  shows "x < 2 ^ 128 \<Longrightarrow> x * q ^ n \<le> y \<Longrightarrow>
    ((\<lambda>s. smooth s (Fin y)) ^^ (Suc n + k)) (Fin x) = Fin y"
proof (induction n arbitrary: x)
  case 0
  have y0: "0 < y"
    using lo zero_less_power_int [of "2::real" "- 126"] by linarith
  have "((\<lambda>s. smooth s (Fin y)) ^^ Suc k) (Fin x) = Fin y"
    using fl y0 0 by (intro smooth_reaches_and_stays) simp_all
  then show ?case by simp
next
  case (Suc n)
  have y0: "0 < y"
    using lo zero_less_power_int [of "2::real" "- 126"] by linarith
  have q: "0 \<le> q" "q \<le> 1"
    by (simp_all add: q_def power_int_minus)
  from smooth_shrinks [OF fl lo Suc.prems(1)] obtain x' where
    x': "smooth (Fin x) (Fin y) = Fin x'" "y \<le> x'" "x' \<le> max y (q * x)" "x' < 2 ^ 128"
    unfolding q_def by blast
  have "x' * q ^ n \<le> y"
  proof (cases "x' \<le> y")
    case True
    have "x' * q ^ n \<le> x' * 1"
      using x'(2) y0 q by (intro mult_left_mono power_le_one) simp_all
    with True show ?thesis by simp
  next
    case False
    with x'(3) have "x' \<le> q * x" by simp
    then have "x' * q ^ n \<le> (q * x) * q ^ n"
      using q(1) by (intro mult_right_mono) simp_all
    with Suc.prems(2) show ?thesis
      by (simp add: mult_ac)
  qed
  with x'(4) have "((\<lambda>s. smooth s (Fin y)) ^^ (Suc n + k)) (Fin x') = Fin y"
    by (rule Suc.IH)
  then show ?case
    using x'(1) by (simp only: add_Suc funpow_Suc_right comp_apply)
qed

lemma smooth_converges:
  assumes fl: "is_float m" and lo: "fle (Fin (2 powi (- 126))) m"
    and f: "flt f (Fin (2 ^ 128))"
  shows "\<exists>n. \<forall>j\<ge>n. ((\<lambda>s. smooth s m) ^^ j) f = m"
proof -
  have m0: "fle (Fin 0) m"
    using lo zero_less_power_int [of "2::real" "- 126"] by (cases m) simp_all
  have below: "\<exists>n. \<forall>j\<ge>n. ((\<lambda>s. smooth s m) ^^ j) f = m" if "fle f m"
  proof (intro exI allI impI)
    fix j :: nat
    assume "Suc 0 \<le> j"
    then obtain k where "j = Suc k"
      by (cases j) simp_all
    then show "((\<lambda>s. smooth s m) ^^ j) f = m"
      using smooth_reaches_and_stays [OF fl m0 that, of k] by simp
  qed
  show ?thesis
  proof (cases m)
    case (Fin y)
    with fl lo have y: "to_float y = Fin y" "2 powi (- 126) \<le> y" by simp_all
    then have y0: "0 < y"
      using zero_less_power_int [of "2::real" "- 126"] by linarith
    show ?thesis
    proof (cases f)
      case (Fin x)
      with f have x: "x < 2 ^ 128" by simp
      let ?q = "7549747 / 8388608 * (1 + 2 powi (- 24)) :: real"
      have "\<exists>n. x * ?q ^ n \<le> y"
      proof (cases "0 < x")
        case False
        with y0 have "x * ?q ^ 0 \<le> y" by simp
        then show ?thesis by blast
      next
        case True
        have "?q < 1" by (simp add: power_int_minus)
        moreover have "0 < y / x" using y0 True by simp
        ultimately obtain n where "?q ^ n < y / x"
          using real_arch_pow_inv by blast
        then have "x * ?q ^ n \<le> y"
          using True by (simp add: field_simps)
        then show ?thesis by blast
      qed
      then obtain n where n: "x * ?q ^ n \<le> y" ..
      have "((\<lambda>s. smooth s m) ^^ j) f = m" if "Suc n \<le> j" for j
      proof -
        from that obtain k where "j = Suc n + k"
          using le_Suc_ex by blast
        then show ?thesis
          using smooth_converges_within [OF y x n, of k] Fin \<open>m = Fin y\<close> by simp
      qed
      then show ?thesis by blast
    next
      case PInf
      with f show ?thesis by simp
    next
      case NInf
      with \<open>m = Fin y\<close> show ?thesis by (intro below) simp
    next
      case NaN
      with f show ?thesis by simp
    qed
  next
    case PInf
    with f show ?thesis by (intro below) (cases f; simp)
  next
    case NInf
    with m0 show ?thesis by simp
  next
    case NaN
    with m0 show ?thesis by simp
  qed
qed

text \<open>
  Below the normal range the product with \<^verbatim>\<open>0.9f\<close> can round back to the state: three
  times the smallest positive float stays where it is, above a constant magnitude of
  once the smallest positive float.
\<close>

lemma subnormal_state_stays:
  "smooth (Fin (3 * 2 powi (- 149))) (Fin (2 powi (- 149))) = Fin (3 * 2 powi (- 149))"
proof -
  let ?z = "3 * 2 powi (- 149) * (7549747 / 8388608) :: real"
  have "float_exponent ?z = - 126"
    by (rule float_exponent_subnormal) (simp_all add: power_int_minus)
  then have "to_float ?z = Fin (3 * 2 powi (- 149))"
    by (simp add: to_float_def float_ulp_def round_half_even_def Let_def power_int_minus)
  then show ?thesis
    by (simp add: smooth_Fin power_int_minus)
qed

text \<open>
  Claim C9, as the specification states it, fails for a negative magnitude. With the
  constant new magnitude \<open>-1\<close> the state, which starts at 0, is never at or below the
  magnitude and is still 0 after one cycle and after three: it does not converge to
  \<open>-1\<close>.
\<close>

theorem smoothing_convergence_counterexample:
  "is_float (Fin (- 1)) \<and>
   smooth (Fin 0) (Fin (- 1)) = Fin 0 \<and>
   smooth (smooth (smooth (Fin 0) (Fin (- 1))) (Fin (- 1))) (Fin (- 1)) = Fin 0 \<and>
   \<not> fle (Fin 0) (Fin (- 1)) \<and> Fin 0 \<noteq> Fin (- 1)"
  by (simp add: smooth_zero to_float_minus_1)

text \<open>
  Claim C9, amended. For a constant new magnitude \<open>m\<close> of type \<^verbatim>\<open>float\<close> that is not
  negative (plus infinity included): once the state is at most \<open>m\<close>, it equals \<open>m\<close>
  after the next cycle and after every later cycle. If moreover \<open>m\<close> is at least the
  smallest normal float, \<open>2 powi (- 126)\<close>, the state converges to \<open>m\<close> from every state
  below \<open>2 ^ 128\<close>, that is from every state but plus infinity and NaN: after finitely
  many cycles it equals \<open>m\<close> and remains \<open>m\<close>.
\<close>

theorem smoothing_convergence:
  "is_float m \<Longrightarrow> fle (Fin 0) m \<Longrightarrow>
   (fle f m \<longrightarrow> ((\<lambda>s. smooth s m) ^^ Suc k) f = m) \<and>
   (fle (Fin (2 powi (- 126))) m \<and> flt f (Fin (2 ^ 128)) \<longrightarrow>
      (\<exists>n. \<forall>j\<ge>n. ((\<lambda>s. smooth s m) ^^ j) f = m))"
proof (intro conjI impI)
  assume m: "is_float m" "fle (Fin 0) m"
  show "((\<lambda>s. smooth s m) ^^ Suc k) f = m" if "fle f m"
    using m that by (rule smooth_reaches_and_stays)
  show "\<exists>n. \<forall>j\<ge>n. ((\<lambda>s. smooth s m) ^^ j) f = m"
    if "fle (Fin (2 powi (- 126))) m \<and> flt f (Fin (2 ^ 128))"
    using m(1) that by (intro smooth_converges) simp_all
qed

theorem smoothing_convergence_witness:
  "is_float (Fin 3) \<and> fle (Fin 0) (Fin 3) \<and>
   fle (Fin 1) (Fin 3) \<and> smooth (Fin 1) (Fin 3) = Fin 3 \<and>
   ((\<lambda>s. smooth s (Fin 3)) ^^ Suc 2) (Fin 1) = Fin 3 \<and>
   fle (Fin (2 powi (- 126))) (Fin 3) \<and> flt (Fin 4) (Fin (2 ^ 128)) \<and>
   smooth (Fin 4) (Fin 3) = Fin (7549747 / 2097152) \<and>
   (\<exists>n. \<forall>j\<ge>n. ((\<lambda>s. smooth s (Fin 3)) ^^ j) (Fin 4) = Fin 3)"
proof -
  have m: "is_float (Fin 3)" "fle (Fin 0) (Fin 3)"
    by (simp_all add: to_float_3)
  have lo: "fle (Fin (2 powi (- 126))) (Fin 3)" "flt (Fin 4) (Fin (2 ^ 128))"
    by (simp_all add: power_int_minus)
  have one: "smooth (Fin 4) (Fin 3) = Fin (7549747 / 2097152)"
    by (simp add: smooth_Fin to_float_4_decayed)
  from smoothing_convergence [OF m, of "Fin 1" 2] smoothing_convergence [OF m, of "Fin 1" 0]
    smoothing_convergence [OF m, of "Fin 4" 0] m lo one
  show ?thesis
    by (simp del: funpow.simps add: funpow.simps(2) [of 0])
qed

section \<open>The transform of two windows\<close>

lemma BUFSIZE_pos: "0 < BUFSIZE"
  by (simp add: BUFSIZE_def)

lemma fsum_zero: "\<forall>x \<in> set xs. x = Fin 0 \<Longrightarrow> fsum xs = Fin 0"
  by (induction xs) simp_all

lemma copy_zero_window: "copy_buffer zero_window = zero_window"
  using map_nth [of zero_window] by (simp add: copy_buffer_def zero_window_def)

lemma length_impulse_window: "length impulse_window = BUFSIZE"
  using BUFSIZE_pos by (simp add: impulse_window_def)

lemma copy_impulse_window: "copy_buffer impulse_window = impulse_window"
  using map_nth [of impulse_window] by (simp only: copy_buffer_def length_impulse_window)

lemma impulse_window_nth:
  "j < BUFSIZE \<Longrightarrow> impulse_window ! j = (if j = 0 then Fin 1 else Fin 0)"
  by (cases j) (simp_all add: impulse_window_def)

lemma dft_bin_zero: "dft_bin zero_window k = (Fin 0, Fin 0)"
  by (simp add: dft_bin_def zero_window_def fsum_zero)

lemma dft_bin_impulse: "dft_bin impulse_window k = (Fin 1, Fin 0)"
proof -
  have upt: "[0..<BUFSIZE] = 0 # [Suc 0..<BUFSIZE]"
    by (rule upt_conv_Cons) (rule BUFSIZE_pos)
  have re: "fsum (map (\<lambda>j. fmul (impulse_window ! j) (Fin (cos (dft_angle j k))))
        [Suc 0..<BUFSIZE]) = Fin 0"
    by (rule fsum_zero) (simp add: impulse_window_nth)
  have im: "fsum (map (\<lambda>j. fmul (impulse_window ! j) (Fin (- sin (dft_angle j k))))
        [Suc 0..<BUFSIZE]) = Fin 0"
    by (rule fsum_zero) (simp add: impulse_window_nth)
  have first: "impulse_window ! 0 = Fin 1" "dft_angle 0 k = 0"
    by (simp_all add: impulse_window_def dft_angle_def)
  show ?thesis
    unfolding dft_bin_def upt by (simp add: re im first)
qed

lemma fftw_execute_nth: "k \<le> BUFSIZE div 2 \<Longrightarrow> fftw_execute w ! k = dft_bin w k"
  unfolding fftw_execute_def by (simp del: upt_Suc add: nth_map_upt)

section \<open>The amplitude of a column\<close>

lemma fAmplitude_zero:
  "col < WORDLE_COLUMNS \<Longrightarrow> fAmplitude (fftw_execute zero_window) col = NInf"
  using bins_readable [of col]
  by (simp add: fAmplitude_def Let_def fftw_execute_nth dft_bin_zero del: add_0_right)

lemma fAmplitude_impulse:
  "col < WORDLE_COLUMNS \<Longrightarrow> fAmplitude (fftw_execute impulse_window) col = Fin (log 10 2)"
  using bins_readable [of col]
  by (simp add: fAmplitude_def Let_def fftw_execute_nth dft_bin_impulse del: add_0_right)

lemma spec_bin_sample_impulse:
  "col < WORDLE_COLUMNS \<Longrightarrow> spec_bin_sample (fftw_execute impulse_window) col = Fin 0"
  using bins_readable [of col]
  by (simp add: spec_bin_sample_def Let_def fftw_execute_nth dft_bin_impulse)

text \<open>
  Claim C1 does not hold of the code. For a window holding a unit impulse, every entry
  of the spectrum is \<open>1 + 0i\<close>. The specified amplitude of column 0 is the logarithm of
  \<open>1\<^sup>2 + 0\<^sup>2\<close>, which is 0; the program computes the logarithm of \<open>1\<^sup>2 + 1\<^sup>2\<close>, from
  the real parts of the entry at the mapped index and of the entry after it, and never
  reads an imaginary part.
\<close>

theorem bin_sampler_reads_next_real_part:
  "fAmplitude (fftw_execute (copy_buffer impulse_window)) 0 = Fin (log 10 2) \<and>
   spec_bin_sample (fftw_execute (copy_buffer impulse_window)) 0 = Fin 0 \<and>
   fAmplitude (fftw_execute (copy_buffer impulse_window)) 0 \<noteq>
     spec_bin_sample (fftw_execute (copy_buffer impulse_window)) 0"
proof -
  have "0 < log 10 (2::real)"
    by simp
  then have "log 10 (2::real) \<noteq> 0"
    by linarith
  then show ?thesis
    by (simp add: copy_impulse_window fAmplitude_impulse spec_bin_sample_impulse
        WORDLE_COLUMNS_def)
qed

section \<open>Silence\<close>

lemma smooth_columns_zero:
  "smooth_columns (fftw_execute zero_window) 0 zero_frame = zero_frame"
proof -
  have "afAmplitudes (smooth_columns (fftw_execute zero_window) 0 zero_frame) =
      map (\<lambda>col. smooth (afAmplitudes zero_frame ! col)
                    (fAmplitude (fftw_execute zero_window) col))
        [0..<WORDLE_COLUMNS]"
    using smooth_columns_from [of 0 zero_frame] by (simp add: zero_frame_def)
  also have "\<dots> = map (\<lambda>col. Fin 0) [0..<WORDLE_COLUMNS]"
    by (rule map_cong) (simp_all add: fAmplitude_zero zero_frame_def smooth_zero)
  finally have "afAmplitudes (smooth_columns (fftw_execute zero_window) 0 zero_frame) =
      afAmplitudes zero_frame"
    by (simp add: zero_frame_def map_replicate_const)
  then show ?thesis
    by (simp add: zero_frame_def)
qed

lemma palette_index_zero: "palette_index r (Fin 0) = 0"
  by (simp add: palette_index_def fAttenuation_def REMAP_Fin)

lemma printWordle_zero: "printWordle zero_frame = black_grid"
proof -
  have row: "map (\<lambda>col. acPalette ! palette_index r (afAmplitudes zero_frame ! col))
      [0..<WORDLE_COLUMNS] = replicate WORDLE_COLUMNS (acPalette ! 0)" for r
  proof -
    have "map (\<lambda>col. acPalette ! palette_index r (afAmplitudes zero_frame ! col))
        [0..<WORDLE_COLUMNS] = map (\<lambda>col. acPalette ! 0) [0..<WORDLE_COLUMNS]"
      by (rule map_cong) (simp_all add: zero_frame_def palette_index_zero)
    then show ?thesis by (simp add: map_replicate_const)
  qed
  show ?thesis
    by (simp add: printWordle_def row black_grid_def map_replicate_const)
qed

section \<open>The capture loop\<close>

lemma ui32NumReads_value: "ui32NumReads = 430"
  by (simp add: ui32NumReads_def SAMPLE_RATE_def SECONDS_def BUFSIZE_def)

lemma capture_loop_done: "capture_loop n rd n s = s"
  by (subst capture_loop.simps) simp

lemma capture_loop_read_failed:
  "i < n \<Longrightarrow> rd i = ReadFailed e \<Longrightarrow>
   capture_loop n rd i s = s\<lparr>emitted := emitted s @ [PrintReadFailed e]\<rparr>"
  by (subst capture_loop.simps) simp

lemma capture_loop_silent_prefix:
  "k - i = d \<Longrightarrow> i \<le> k \<Longrightarrow> k \<le> n \<Longrightarrow>
   (\<forall>j. i \<le> j \<longrightarrow> j < k \<longrightarrow> rd j = ReadOk zero_window) \<Longrightarrow>
   sWordleFrame s = zero_frame \<Longrightarrow>
   capture_loop n rd i s =
     capture_loop n rd k
       (s\<lparr>emitted := emitted s @ concat (replicate d [ClearTerminal, Render black_grid])\<rparr>)"
proof (induction d arbitrary: i s)
  case 0
  then show ?case by simp
next
  case (Suc d)
  let ?s = "\<lparr>sWordleFrame = zero_frame,
             emitted = emitted s @ [ClearTerminal, Render black_grid]\<rparr>"
  from Suc.prems have lt: "i < n" and rd: "rd i = ReadOk zero_window"
    by auto
  have step: "capture_loop n rd i s = capture_loop n rd (Suc i) ?s"
    using lt rd Suc.prems(5)
    by (subst capture_loop.simps)
      (simp add: Let_def copy_zero_window smooth_columns_zero printWordle_zero)
  have "capture_loop n rd (Suc i) ?s =
      capture_loop n rd k
        (?s\<lparr>emitted := emitted ?s @ concat (replicate d [ClearTerminal, Render black_grid])\<rparr>)"
    using Suc.prems by (intro Suc.IH) auto
  moreover have
    "?s\<lparr>emitted := emitted ?s @ concat (replicate d [ClearTerminal, Render black_grid])\<rparr>
      = s\<lparr>emitted := emitted s @
            concat (replicate (Suc d) [ClearTerminal, Render black_grid])\<rparr>"
    using Suc.prems(5) by (cases s) simp
  ultimately show ?case
    using step by simp
qed

lemma rendered_append: "rendered (xs @ ys) = rendered xs @ rendered ys"
  by (induction xs rule: rendered.induct) simp_all

lemma rendered_cycles:
  "rendered (concat (replicate n [ClearTerminal, Render g])) = replicate n g"
  by (induction n) simp_all





text \<open>
  Claim C7. When every window of the run is all zeros, the program renders one grid
  per cycle, 430 in all, and every cell of every one of them shows the first palette
  entry.
\<close>

theorem silence_renders_black:
  "2 \<le> argc \<Longrightarrow> (\<forall>i < ui32NumReads. rd i = ReadOk zero_window) \<Longrightarrow>
   rendered (events (main argc OpenOk rd)) = replicate ui32NumReads black_grid"
  using capture_loop_silent_prefix [of ui32NumReads 0 ui32NumReads ui32NumReads rd
      "\<lparr>sWordleFrame = zero_frame,
        emitted = [Acquire Stream, Acquire FFTWOutput, Acquire FFTWPlan]\<rparr>"]
  by (simp add: main_def Let_def capture_loop_done rendered_append rendered_cycles)

theorem silence_renders_black_witness:
  "(2::int) \<le> 2 \<and> silence 0 = ReadOk zero_window \<and>
   rendered (events (main 2 OpenOk silence)) = replicate ui32NumReads black_grid \<and>
   ui32NumReads = 430 \<and>
   black_grid = replicate 6 (replicate 5 BlackSquare)"
  using silence_renders_black [of 2 silence]
  by (simp add: silence_def ui32NumReads_value black_grid_def WORDLE_ROWS_def WORDLE_COLUMNS_def
      acPalette_def)

text \<open>
  Claim C3 does not hold of the code. When the third read fails, the program reports
  the failure after exactly two rendered grids and releases its three resources, but
  then it returns 0, whereas the paths for a missing argument and for a stream that
  cannot be opened return 1.
\<close>

theorem read_failure_exits_with_zero:
  "events (main 2 OpenOk fails_on_third) =
     [Acquire Stream, Acquire FFTWOutput, Acquire FFTWPlan,
      ClearTerminal, Render black_grid, ClearTerminal, Render black_grid,
      PrintReadFailed 1,
      Release Stream, Release FFTWOutput, Release FFTWPlan] \<and>
   length (rendered (events (main 2 OpenOk fails_on_third))) = 2 \<and>
   exit_status (main 2 OpenOk fails_on_third) = 0 \<and>
   exit_status (main 1 OpenOk fails_on_third) = 1 \<and>
   exit_status (main 2 (OpenFailed 1) fails_on_third) = 1"
proof -
  let ?s = "\<lparr>sWordleFrame = zero_frame,
             emitted = [Acquire Stream, Acquire FFTWOutput, Acquire FFTWPlan]\<rparr>"
  have "capture_loop ui32NumReads fails_on_third 0 ?s =
      capture_loop ui32NumReads fails_on_third 2
        (?s\<lparr>emitted := emitted ?s @
            concat (replicate (Suc (Suc 0)) [ClearTerminal, Render black_grid])\<rparr>)"
    by (rule capture_loop_silent_prefix) (simp_all add: ui32NumReads_value fails_on_third_def)
  also have "\<dots> = \<lparr>sWordleFrame = zero_frame,
      emitted = [Acquire Stream, Acquire FFTWOutput, Acquire FFTWPlan,
        ClearTerminal, Render black_grid, ClearTerminal, Render black_grid,
        PrintReadFailed 1]\<rparr>"
    by (subst capture_loop_read_failed [where e = 1])
      (simp_all add: ui32NumReads_value fails_on_third_def)
  finally show ?thesis
    by (simp add: main_def Let_def)
qed

section \<open>The logarithm of zero\<close>

lemma frame_ok_zero: "frame_ok zero_frame"
  by (simp add: frame_ok_def zero_frame_def)

lemma smooth_columns_ok: "frame_ok fr \<Longrightarrow> frame_ok (smooth_columns out 0 fr)"
  using smooth_columns_from [of 0 fr out]
  by (simp add: frame_ok_def smooth_nonneg)

lemma capture_loop_ok:
  "frame_ok (sWordleFrame s) \<Longrightarrow> frame_ok (sWordleFrame (capture_loop n rd i s))"
proof (induction n rd i s rule: capture_loop.induct)
  case (1 n rd i s)
  show ?case
  proof (cases "i < n")
    case False
    then have "capture_loop n rd i s = s"
      by (subst capture_loop.simps) simp
    with "1.prems" show ?thesis by simp
  next
    case True
    show ?thesis
    proof (cases "rd i")
      case (ReadFailed e)
      with True "1.prems" show ?thesis
        by (simp add: capture_loop_read_failed)
    next
      case (ReadOk buf)
      with True "1.prems" "1.IH" [OF True ReadOk refl refl refl] show ?thesis
        by (subst capture_loop.simps) (simp add: Let_def smooth_columns_ok)
    qed
  qed
qed

text \<open>
  Claim C2, as the specification states it, fails: nothing is clamped before the
  logarithm is taken. For a window of zeros the amplitude computed for column 0 is
  minus infinity.
\<close>

theorem no_clamp_counterexample:
  "fAmplitude (fftw_execute (copy_buffer zero_window)) 0 = NInf"
  by (simp add: copy_zero_window fAmplitude_zero WORDLE_COLUMNS_def)

text \<open>
  Claim C2, amended. No floor is applied before the logarithm: for a window of zeros
  the amplitude computed for every column is minus infinity. No error comes of it;
  the smoothing step takes \<^verbatim>\<open>fmax\<close> of it and the decayed previous amplitude, which
  leaves a zero amplitude at zero. Started from the zero frame, the loop keeps every
  amplitude of the frame at or above zero (so neither minus infinity nor NaN) after any
  number of cycles on any input.
\<close>

theorem minus_infinity_absorbed:
  "col < WORDLE_COLUMNS \<Longrightarrow>
   fAmplitude (fftw_execute (copy_buffer zero_window)) col = NInf \<and>
   smooth (Fin 0) (fAmplitude (fftw_execute (copy_buffer zero_window)) col) = Fin 0 \<and>
   fle (Fin 0)
     (afAmplitudes (sWordleFrame
        (capture_loop n rd 0 \<lparr>sWordleFrame = zero_frame, emitted = tr\<rparr>)) ! col)"
proof -
  assume col: "col < WORDLE_COLUMNS"
  have "frame_ok (sWordleFrame
      (capture_loop n rd 0 \<lparr>sWordleFrame = zero_frame, emitted = tr\<rparr>))"
    by (rule capture_loop_ok) (simp add: frame_ok_zero)
  then have "fle (Fin 0)
     (afAmplitudes (sWordleFrame
        (capture_loop n rd 0 \<lparr>sWordleFrame = zero_frame, emitted = tr\<rparr>)) ! col)"
    using col by (simp add: frame_ok_def)
  then show ?thesis
    using col by (simp add: copy_zero_window fAmplitude_zero smooth_zero)
qed

theorem minus_infinity_absorbed_witness:
  "(0::nat) < WORDLE_COLUMNS \<and>
   fAmplitude (fftw_execute (copy_buffer zero_window)) 0 = NInf \<and>
   fle (Fin 0)
     (afAmplitudes (sWordleFrame
        (capture_loop 1 silence 0 \<lparr>sWordleFrame = zero_frame, emitted = []\<rparr>)) ! 0)"
  using minus_infinity_absorbed [of 0 1 silence "[]"] by (simp add: WORDLE_COLUMNS_def)

section \<open>Resources\<close>

lemma acquired_append: "acquired (xs @ ys) = acquired xs @ acquired ys"
  by (induction xs rule: acquired.induct) simp_all

lemma released_append: "released (xs @ ys) = released xs @ released ys"
  by (induction xs rule: released.induct) simp_all

lemma capture_loop_resources:
  "released (emitted (capture_loop n rd i s)) = released (emitted s) \<and>
   acquired (emitted (capture_loop n rd i s)) = acquired (emitted s)"
proof (induction n rd i s rule: capture_loop.induct)
  case (1 n rd i s)
  show ?case
  proof (cases "i < n")
    case False
    then have "capture_loop n rd i s = s"
      by (subst capture_loop.simps) simp
    then show ?thesis by simp
  next
    case True
    show ?thesis
    proof (cases "rd i")
      case (ReadFailed e)
      with True have "capture_loop n rd i s = s\<lparr>emitted := emitted s @ [PrintReadFailed e]\<rparr>"
        by (subst capture_loop.simps) simp
      then show ?thesis by (simp add: released_append acquired_append)
    next
      case (ReadOk buf)
      with True "1.IH" [OF True ReadOk refl refl refl] show ?thesis
        by (subst (1 2) capture_loop.simps) (simp add: Let_def released_append acquired_append)
    qed
  qed
qed

text \<open>
  Claim C4, as the specification states it, fails: the resources are not released in
  the reverse of the order of acquisition. With a source whose first read fails, the
  program acquires the stream, the output buffer and the plan, reports the failure, and
  releases the stream, the output buffer and the plan.
\<close>

theorem release_order_counterexample:
  "events (main 2 OpenOk always_fails) =
     [Acquire Stream, Acquire FFTWOutput, Acquire FFTWPlan,
      PrintReadFailed 1,
      Release Stream, Release FFTWOutput, Release FFTWPlan] \<and>
   released (events (main 2 OpenOk always_fails)) \<noteq>
     rev (acquired (events (main 2 OpenOk always_fails)))"
proof -
  have "capture_loop ui32NumReads always_fails 0
      \<lparr>sWordleFrame = zero_frame,
       emitted = [Acquire Stream, Acquire FFTWOutput, Acquire FFTWPlan]\<rparr>
    = \<lparr>sWordleFrame = zero_frame,
       emitted = [Acquire Stream, Acquire FFTWOutput, Acquire FFTWPlan, PrintReadFailed 1]\<rparr>"
    by (subst capture_loop_read_failed [where e = 1])
      (simp_all add: ui32NumReads_value always_fails_def)
  then show ?thesis
    by (simp add: main_def Let_def)
qed

text \<open>
  Claim C4, amended. Whatever the reads deliver or fail with, a run that has opened its
  stream acquires the stream, the transform output buffer and the transform plan in
  this order, and releases each of them exactly once, in the same order, as the last
  three things it does.
\<close>

theorem release_order:
  "2 \<le> argc \<Longrightarrow>
   acquired (events (main argc OpenOk rd)) = [Stream, FFTWOutput, FFTWPlan] \<and>
   released (events (main argc OpenOk rd)) = [Stream, FFTWOutput, FFTWPlan] \<and>
   (\<exists>es. events (main argc OpenOk rd) =
            es @ [Release Stream, Release FFTWOutput, Release FFTWPlan] \<and> released es = [])"
proof -
  assume argc: "2 \<le> argc"
  let ?s = "\<lparr>sWordleFrame = zero_frame,
             emitted = [Acquire Stream, Acquire FFTWOutput, Acquire FFTWPlan]\<rparr>"
  let ?es = "emitted (capture_loop ui32NumReads rd 0 ?s)"
  have loop: "released ?es = []" "acquired ?es = [Stream, FFTWOutput, FFTWPlan]"
    using capture_loop_resources [of ui32NumReads rd 0 ?s] by simp_all
  have run: "events (main argc OpenOk rd) =
      ?es @ [Release Stream, Release FFTWOutput, Release FFTWPlan]"
    using argc by (simp add: main_def Let_def)
  have "\<exists>es. events (main argc OpenOk rd) =
            es @ [Release Stream, Release FFTWOutput, Release FFTWPlan] \<and> released es = []"
    using run loop(1) by blast
  then show ?thesis
    using loop by (simp add: run released_append acquired_append)
qed

theorem release_order_witness:
  "(2::int) \<le> 2 \<and>
   acquired (events (main 2 OpenOk fails_on_third)) = [Stream, FFTWOutput, FFTWPlan] \<and>
   released (events (main 2 OpenOk fails_on_third)) = [Stream, FFTWOutput, FFTWPlan] \<and>
   acquired (events (main 2 OpenOk silence)) = [Stream, FFTWOutput, FFTWPlan] \<and>
   released (events (main 2 OpenOk silence)) = [Stream, FFTWOutput, FFTWPlan]"
  using release_order [of 2 fails_on_third] release_order [of 2 silence] by simp

end
